theory Spec2Isabelle
  imports Main "HOL-Library.Word" "HOL-Library.Signed_Division"
begin

section \<open>C integers and the standard output\<close>

text \<open>
  The program \<^verbatim>\<open>src/day/main.c\<close> computes on C \<^verbatim>\<open>int\<close>s. They are modelled as
  32-bit words: \<open>+\<close>, \<open>-\<close> and \<open>*\<close> wrap around, \<open>sint\<close> reads the two's-complement value,
  and the comparisons of the source are the signed ones (\<open>\<le>s\<close>, \<open><s\<close>). ISO C leaves
  the overflow of a signed operation undefined; the model gives it the value that
  two's-complement hardware computes. On the dates that \<^verbatim>\<open>is_valid_date\<close> accepts
  the wrap-around plays no part: there \<^verbatim>\<open>calculate_day_of_week\<close> returns the value of its
  sum on mathematical integers (lemma \<open>calculate_day_of_week_int\<close> below).
\<close>

type_synonym c_int = "32 word"

text \<open>
  C's \<^verbatim>\<open>/\<close> and \<^verbatim>\<open>%\<close> on \<^verbatim>\<open>int\<close>: the quotient is truncated towards zero and the
  remainder takes the sign of the dividend (\<open>sdiv\<close> and \<open>smod\<close> on \<open>int\<close>). The source
  only ever divides by the positive constants 4, 5, 7, 100 and 400.
\<close>

definition c_div :: "c_int \<Rightarrow> c_int \<Rightarrow> c_int" where
  "c_div a b = word_of_int (sint a sdiv sint b)"

definition c_mod :: "c_int \<Rightarrow> c_int \<Rightarrow> c_int" where
  "c_mod a b = word_of_int (sint a smod sint b)"

text \<open>
  What \<^verbatim>\<open>printf("%d", x)\<close> writes: the decimal digits of \<open>x\<close>, after a minus sign when
  \<open>x\<close> is negative.
\<close>

definition digit :: "nat \<Rightarrow> char" where
  "digit n = ''0123456789'' ! (n mod 10)"

function dec_nat :: "nat \<Rightarrow> string" where
  "dec_nat n =
     (if n < 10 then [digit n]
      else dec_nat (n div 10) @ [digit n])"
  by pat_completeness auto
termination
  by (relation "measure (\<lambda>n. n)") auto

declare dec_nat.simps [simp del]

definition fmt_d :: "c_int \<Rightarrow> string" where
  "fmt_d x =
     (if sint x < 0 then CHR ''-'' # dec_nat (nat (- sint x))
      else dec_nat (nat (sint x)))"

text \<open>
  Reading a C array: \<open>None\<close> stands for an access outside the array, which C leaves
  undefined.
\<close>

definition array_read :: "'a list \<Rightarrow> c_int \<Rightarrow> 'a option" where
  "array_read xs i =
     (if 0 \<le> sint i \<and> sint i < int (length xs) then Some (xs ! nat (sint i)) else None)"


section \<open>The functions of \<^verbatim>\<open>main.c\<close>\<close>

subsection \<open>\<^verbatim>\<open>is_leap\<close>\<close>

definition is_leap :: "c_int \<Rightarrow> c_int" where
  "is_leap year =
     (if c_mod year 400 = 0 then 1
      else if c_mod year 100 = 0 then 0
      else if c_mod year 4 = 0 then 1
      else 0)"

subsection \<open>\<^verbatim>\<open>get_days_in_month\<close>\<close>

text \<open>
  The function has five \<^verbatim>\<open>return\<close> statements. \<open>get_days_in_month_ret\<close> gives the
  statement that is executed together with the value it returns, so that the reachability
  of each statement can be stated; \<open>get_days_in_month\<close> is the returned value.
\<close>

datatype return_stmt =
    Invalid_month      \<comment> \<open>line 39: \<^verbatim>\<open>return -1; // Invalid month\<close>\<close>
  | Days_30            \<comment> \<open>line 44\<close>
  | Days_31            \<comment> \<open>line 49\<close>
  | Days_february      \<comment> \<open>line 54\<close>
  | Should_not_happen  \<comment> \<open>line 57: \<^verbatim>\<open>return -1; // Should not happen\<close>\<close>

definition get_days_in_month_ret :: "c_int \<Rightarrow> c_int \<Rightarrow> return_stmt \<times> c_int" where
  "get_days_in_month_ret month year =
     (if month <s 1 \<or> 12 <s month then (Invalid_month, - 1)
      else if month = 4 \<or> month = 6 \<or> month = 9 \<or> month = 11 then (Days_30, 30)
      else if month = 1 \<or> month = 3 \<or> month = 5 \<or> month = 7 \<or> month = 8
              \<or> month = 10 \<or> month = 12 then (Days_31, 31)
      else if month = 2 then (Days_february, if is_leap year \<noteq> 0 then 29 else 28)
      else (Should_not_happen, - 1))"

definition get_days_in_month :: "c_int \<Rightarrow> c_int \<Rightarrow> c_int" where
  "get_days_in_month month year = snd (get_days_in_month_ret month year)"

subsection \<open>\<^verbatim>\<open>is_valid_date\<close>\<close>

text \<open>The three diagnostics, as \<^verbatim>\<open>printf\<close> writes them.\<close>

definition year_error :: string where
  "year_error = ''Error: Year must be between 1700 and 2500 for this calculation.\<newline>''"

definition month_error :: string where
  "month_error = ''Error: Month must be between 1 and 12.\<newline>''"

definition day_error :: "c_int \<Rightarrow> c_int \<Rightarrow> c_int \<Rightarrow> string" where
  "day_error max_day month year =
     ''Error: Day must be between 1 and '' @ fmt_d max_day @ '' for '' @ fmt_d month
       @ ''/'' @ fmt_d year @ ''.\<newline>''"

text \<open>The result is the returned \<^verbatim>\<open>bool\<close> and the text written to the standard output.\<close>

definition is_valid_date :: "c_int \<Rightarrow> c_int \<Rightarrow> c_int \<Rightarrow> bool \<times> string" where
  "is_valid_date day month year =
     (if year <s 1700 \<or> 2500 <s year then (False, year_error)
      else if month <s 1 \<or> 12 <s month then (False, month_error)
      else
        let max_day = get_days_in_month month year in
        if day <s 1 \<or> max_day <s day then (False, day_error max_day month year)
        else (True, []))"

subsection \<open>\<^verbatim>\<open>calculate_day_of_week\<close>\<close>

text \<open>
  The parameters \<^verbatim>\<open>month\<close> and \<^verbatim>\<open>year\<close> are assigned to in the source; \<open>month0\<close> and
  \<open>year0\<close> are their values on entry. \<^verbatim>\<open>day_index\<close> is computed and never read.
\<close>

definition calculate_day_of_week :: "c_int \<Rightarrow> c_int \<Rightarrow> c_int \<Rightarrow> c_int" where
  "calculate_day_of_week day month0 year0 =
     (let (month, year) =
            (if month0 = 1 then (13, year0 - 1)
             else if month0 = 2 then (14, year0 - 1)
             else (month0, year0));
          D = c_mod year 100;
          C = c_div year 100;
          day_index = c_mod (day + c_div (13 * (month + 1)) 5 + D + c_div D 4
                              + c_div C 4 + 5 * C) 7;
          h = c_mod (day + c_div (13 * (month + 1)) 5 + D + c_div D 4
                      + c_div C 4 + 5 * C) 7
      in h)"

subsection \<open>\<^verbatim>\<open>print_day_name\<close>\<close>

definition day_names :: "string list" where
  "day_names = [''Saturday'', ''Sunday'', ''Monday'', ''Tuesday'',
                ''Wednesday'', ''Thursday'', ''Friday'']"

definition invalid_index_error :: string where
  "invalid_index_error = ''Error: Invalid day index calculated.\<newline>''"

text \<open>
  The result is the text written to the standard output, or \<open>None\<close> if the array
  \<^verbatim>\<open>day_names\<close> is read outside its bounds.
\<close>

definition print_day_name :: "c_int \<Rightarrow> string option" where
  "print_day_name day_index =
     (if 0 \<le>s day_index \<and> day_index \<le>s 6 then
        (case array_read day_names day_index of
           None \<Rightarrow> None
         | Some name \<Rightarrow> Some (''The day of the week was: '' @ name @ ''\<newline>''))
      else Some invalid_index_error)"


section \<open>The algorithm and the calendar of the specification\<close>


text \<open>
  The same algorithm on mathematical integers, where nothing wraps around; \<open>sdiv\<close> and
  \<open>smod\<close> are the truncating division and its remainder.
\<close>

definition computeWeekday_int :: "int \<Rightarrow> int \<Rightarrow> int \<Rightarrow> int" where
  "computeWeekday_int day month year =
     (let (month1, year1) = (if month = 1 then (13, year - 1) else (month, year));
          (month2, year2) = (if month1 = 2 then (14, year1 - 1) else (month1, year1));
          C = year2 sdiv 100;
          D = year2 smod 100
      in (day + (13 * (month2 + 1)) sdiv 5 + D + D sdiv 4 + C sdiv 4 + 5 * C) smod 7)"

text \<open>
  The Gregorian calendar on mathematical integers: the leap years, the number of days of
  a month, and the valid dates (a month in 1..12 and a day between 1 and the number of
  days of that month in that year).
\<close>

definition gregorian_leap_year :: "int \<Rightarrow> bool" where
  "gregorian_leap_year y \<longleftrightarrow> 400 dvd y \<or> (4 dvd y \<and> \<not> 100 dvd y)"

definition gregorian_month_length :: "int \<Rightarrow> int \<Rightarrow> int" where
  "gregorian_month_length m y =
     (if m \<in> {1, 3, 5, 7, 8, 10, 12} then 31
      else if m \<in> {4, 6, 9, 11} then 30
      else if gregorian_leap_year y then 29 else 28)"

definition valid_gregorian_date :: "int \<Rightarrow> int \<Rightarrow> int \<Rightarrow> bool" where
  "valid_gregorian_date d m y \<longleftrightarrow>
     1 \<le> m \<and> m \<le> 12 \<and> 1 \<le> d \<and> d \<le> gregorian_month_length m y"

text \<open>
  A reference count of days, independent of the program: the number of days from
  1 January 2000 to the day \<open>d\<close> of the month \<open>m\<close> of a year \<open>y\<close> from 2000 on. 1 January
  2000 was a Saturday, the weekday of index 0, so the count modulo 7 is the index of
  the weekday of the date.
\<close>

definition days_since_2000 :: "int \<Rightarrow> int \<Rightarrow> int \<Rightarrow> int" where
  "days_since_2000 d m y =
     (\<Sum>y' \<leftarrow> [2000..y - 1]. if gregorian_leap_year y' then 366 else 365)
     + (\<Sum>m' \<leftarrow> [1..m - 1]. gregorian_month_length m' y)
     + (d - 1)"



section \<open>Facts about the arithmetic of C\<close>

lemma sint_of_int_c_int:
  "- 2147483648 \<le> k \<Longrightarrow> k < 2147483648 \<Longrightarrow> sint (word_of_int k :: c_int) = k"
  by (simp add: sint_sbintrunc' signed_take_bit_int_eq_self)

lemma sint_c_int_bounds: "- 2147483648 \<le> sint (a :: c_int) \<and> sint a < 2147483648"
  using sint_ge [of a] sint_lt [of a] by simp

lemma c_int_eq_iff: "a = b \<longleftrightarrow> sint a = sint b" for a b :: c_int
  by (rule word_eq_iff_signed)

lemma smod_pos:
  "0 < l \<Longrightarrow> (k::int) smod l = (if 0 \<le> k then k mod l else - ((- k) mod l))"
  by (simp add: signed_modulo_int_def sgn_if)

lemma sdiv_pos:
  "0 < l \<Longrightarrow> (k::int) sdiv l = (if 0 \<le> k then k div l else - ((- k) div l))"
  by (simp add: signed_divide_int_def sgn_if)

lemma div_mod_between:
  "0 < l \<Longrightarrow> 0 \<le> k \<Longrightarrow> 0 \<le> k div l \<and> k div l \<le> k \<and> 0 \<le> k mod l \<and> k mod l \<le> k"
  for k l :: int
  by (cases "k = 0") (simp_all add: div_int_pos_iff int_div_le_self zmod_le_nonneg_dividend)

text \<open>Dividing by a positive number never leaves an interval around 0.\<close>

lemma trunc_between:
  fixes k l :: int
  assumes "0 < l" "lo \<le> k" "k < hi" "lo \<le> 0" "0 < hi"
  shows "lo \<le> k sdiv l \<and> k sdiv l < hi \<and> lo \<le> k smod l \<and> k smod l < hi"
proof (cases "0 \<le> k")
  case True
  then have "k sdiv l = k div l" "k smod l = k mod l"
    using assms(1) by (simp_all add: sdiv_pos smod_pos)
  moreover have "0 \<le> k div l" "k div l \<le> k" "0 \<le> k mod l" "k mod l \<le> k"
    using div_mod_between [OF assms(1) True] by blast+
  ultimately show ?thesis
    using assms by linarith
next
  case False
  then have neg: "0 \<le> - k" by simp
  from False have "k sdiv l = - ((- k) div l)" "k smod l = - ((- k) mod l)"
    using assms(1) by (simp_all add: sdiv_pos smod_pos)
  moreover have "0 \<le> (- k) div l" "(- k) div l \<le> - k" "0 \<le> (- k) mod l" "(- k) mod l \<le> - k"
    using div_mod_between [OF assms(1) neg] by blast+
  ultimately show ?thesis
    using assms by linarith
qed

lemma sdiv_smod_bounds:
  fixes k :: int
  assumes "- b \<le> k" "k \<le> b" "0 < l"
  shows "- (b div l) \<le> k sdiv l \<and> k sdiv l \<le> b div l \<and> - l < k smod l \<and> k smod l < l"
proof (cases "0 \<le> k")
  case True
  then have eq: "k sdiv l = k div l" "k smod l = k mod l"
    using assms(3) by (simp_all add: sdiv_pos smod_pos)
  have "k div l \<le> b div l"
    using assms by (simp add: zdiv_mono1)
  moreover have "0 \<le> k div l"
    using True assms(3) by (simp add: div_int_pos_iff)
  moreover have "0 \<le> k mod l" "k mod l < l"
    using assms(3) by simp_all
  ultimately show ?thesis
    unfolding eq using assms(3) by linarith
next
  case False
  then have eq: "k sdiv l = - ((- k) div l)" "k smod l = - ((- k) mod l)"
    using assms(3) by (simp_all add: sdiv_pos smod_pos)
  have "(- k) div l \<le> b div l"
    using assms by (simp add: zdiv_mono1)
  moreover have "0 \<le> (- k) div l"
    using False assms(3) by (simp add: div_int_pos_iff)
  moreover have "0 \<le> (- k) mod l" "(- k) mod l < l"
    using assms(3) by simp_all
  ultimately show ?thesis
    unfolding eq using assms(3) by linarith
qed

lemma sdiv_smod_nonneg:
  "0 \<le> k \<Longrightarrow> 0 < l \<Longrightarrow> 0 \<le> k sdiv l \<and> 0 \<le> k smod l \<and> k smod l < l" for k l :: int
  by (simp add: sdiv_pos smod_pos div_int_pos_iff)

lemma sint_c_mod: "0 < sint b \<Longrightarrow> sint (c_mod a b) = sint a smod sint b"
  using trunc_between [of "sint b" "- 2147483648" "sint a" 2147483648] sint_c_int_bounds [of a]
  by (simp add: c_mod_def sint_of_int_c_int)

lemma sint_c_div: "0 < sint b \<Longrightarrow> sint (c_div a b) = sint a sdiv sint b"
  using trunc_between [of "sint b" "- 2147483648" "sint a" 2147483648] sint_c_int_bounds [of a]
  by (simp add: c_div_def sint_of_int_c_int)

lemma smod_eq_0_iff: "0 < l \<Longrightarrow> (k::int) smod l = 0 \<longleftrightarrow> l dvd k"
  by (auto simp: smod_pos mod_eq_0_iff_dvd)

lemma c_mod_eq_0_iff: "0 < sint b \<Longrightarrow> c_mod a b = 0 \<longleftrightarrow> sint b dvd sint a"
proof -
  assume b: "0 < sint b"
  have "c_mod a b = 0 \<longleftrightarrow> sint (c_mod a b) = 0"
    by (simp add: signed_eq_0_iff)
  also have "\<dots> \<longleftrightarrow> sint b dvd sint a"
    by (simp add: sint_c_mod [OF b] smod_eq_0_iff [OF b])
  finally show ?thesis .
qed

lemma sint_add_c_int:
  "- 2147483648 \<le> sint a + sint b \<Longrightarrow> sint a + sint b < 2147483648 \<Longrightarrow>
   sint (a + b) = sint a + sint b" for a b :: c_int
  by (simp add: sint_word_ariths signed_take_bit_int_eq_self)

lemma sint_diff_c_int:
  "- 2147483648 \<le> sint a - sint b \<Longrightarrow> sint a - sint b < 2147483648 \<Longrightarrow>
   sint (a - b) = sint a - sint b" for a b :: c_int
  by (simp add: sint_word_ariths signed_take_bit_int_eq_self)

lemma sint_mult_c_int:
  "- 2147483648 \<le> sint a * sint b \<Longrightarrow> sint a * sint b < 2147483648 \<Longrightarrow>
   sint (a * b) = sint a * sint b" for a b :: c_int
  by (simp add: sint_word_ariths signed_take_bit_int_eq_self)

text \<open>Evaluation of the decimal digits of a numeral.\<close>

lemma dec_nat_numeral:
  "dec_nat (numeral k) =
     (if (numeral k :: nat) < 10 then [digit (numeral k)]
      else dec_nat (numeral k div 10) @ [digit (numeral k)])"
  by (rule dec_nat.simps)


section \<open>Leap years and the lengths of the months\<close>

lemma is_leap_eq:
  "is_leap year =
     (if 400 dvd sint year \<or> (4 dvd sint year \<and> \<not> 100 dvd sint year) then 1 else 0)"
proof -
  have "100 dvd k" if "400 dvd k" for k :: int
    using dvd_trans [of 100 400 k] that by simp
  moreover have "4 dvd k" if "100 dvd k" for k :: int
    using dvd_trans [of 4 100 k] that by simp
  ultimately show ?thesis
    by (auto simp add: is_leap_def c_mod_eq_0_iff)
qed

lemma get_days_in_month_ret_eq:
  "get_days_in_month_ret month year =
     (if sint month < 1 \<or> 12 < sint month then (Invalid_month, - 1)
      else if sint month \<in> {4, 6, 9, 11} then (Days_30, 30)
      else if sint month \<in> {1, 3, 5, 7, 8, 10, 12} then (Days_31, 31)
      else (Days_february, if is_leap year \<noteq> 0 then 29 else 28))"
proof -
  have "sint month < 1 \<or> 12 < sint month \<or> sint month \<in> {4, 6, 9, 11}
      \<or> sint month \<in> {1, 3, 5, 7, 8, 10, 12} \<or> sint month = 2"
    by simp presburger
  moreover have "get_days_in_month_ret month year =
     (if sint month < 1 \<or> 12 < sint month then (Invalid_month, - 1)
      else if sint month \<in> {4, 6, 9, 11} then (Days_30, 30)
      else if sint month \<in> {1, 3, 5, 7, 8, 10, 12} then (Days_31, 31)
      else if sint month = 2 then (Days_february, if is_leap year \<noteq> 0 then 29 else 28)
      else (Should_not_happen, - 1))"
    unfolding get_days_in_month_ret_def word_sless_alt c_int_eq_iff [of month]
    by simp
  ultimately show ?thesis
    by presburger
qed

lemma get_days_in_month_eq:
  "get_days_in_month month year =
     (if sint month < 1 \<or> 12 < sint month then - 1
      else if sint month \<in> {4, 6, 9, 11} then 30
      else if sint month \<in> {1, 3, 5, 7, 8, 10, 12} then 31
      else if is_leap year \<noteq> 0 then 29 else 28)"
  by (simp add: get_days_in_month_def get_days_in_month_ret_eq)

text \<open>
  Claim C4. For every year, \<^verbatim>\<open>is_leap\<close> returns true (the \<^verbatim>\<open>int\<close> 1) if and only if the
  year is divisible by 400, or divisible by 4 but not by 100, and false (0) otherwise. The
  function is total and its result is a value only: it writes nothing and cannot fail.
\<close>

theorem is_leap_gregorian_rule:
  "is_leap year =
     (if 400 dvd sint year \<or> (4 dvd sint year \<and> \<not> 100 dvd sint year) then 1 else 0)"
  by (rule is_leap_eq)

theorem is_leap_gregorian_rule_witness:
  "is_leap 2000 = 1 \<and> is_leap 2024 = 1 \<and> is_leap 1900 = 0 \<and> is_leap 2023 = 0"
  using is_leap_gregorian_rule [of 2000] is_leap_gregorian_rule [of 2024]
    is_leap_gregorian_rule [of 1900] is_leap_gregorian_rule [of 2023]
  by simp

text \<open>
  Claim C5. For every month in 1..12 and every year, \<^verbatim>\<open>get_days_in_month\<close> returns the
  day count of the calendar: 31 for the months 1, 3, 5, 7, 8, 10 and 12, 30 for the
  months 4, 6, 9 and 11, and for February 29 if \<^verbatim>\<open>is_leap\<close> holds of the year and 28
  otherwise. For every month outside 1..12 it returns the sentinel -1.
\<close>

theorem get_days_in_month_table:
  "(1 \<le> sint month \<and> sint month \<le> 12 \<longrightarrow>
      get_days_in_month month year =
        (if sint month \<in> {1, 3, 5, 7, 8, 10, 12} then 31
         else if sint month \<in> {4, 6, 9, 11} then 30
         else if is_leap year \<noteq> 0 then 29 else 28)) \<and>
   (\<not> (1 \<le> sint month \<and> sint month \<le> 12) \<longrightarrow> get_days_in_month month year = - 1)"
  by (auto simp add: get_days_in_month_eq)

theorem get_days_in_month_table_witness:
  "get_days_in_month 2 2024 = 29 \<and> get_days_in_month 2 1900 = 28
   \<and> get_days_in_month 4 2025 = 30 \<and> get_days_in_month 1 2025 = 31
   \<and> get_days_in_month 13 2025 = - 1 \<and> get_days_in_month 0 2025 = - 1"
  using get_days_in_month_table [of 2 2024] get_days_in_month_table [of 2 1900]
    get_days_in_month_table [of 4 2025] get_days_in_month_table [of 1 2025]
    get_days_in_month_table [of 13 2025] get_days_in_month_table [of 0 2025]
  by (simp add: is_leap_eq)

text \<open>
  Claim C10. For every month in 1..12 and every year, \<^verbatim>\<open>get_days_in_month\<close> returns one
  of 28, 29, 30 and 31, a positive value. The last \<^verbatim>\<open>return -1\<close> of the function, after
  the guard on the month, is executed for no month and no year.
\<close>

theorem get_days_in_month_positive:
  "(1 \<le> sint month \<and> sint month \<le> 12 \<longrightarrow>
      get_days_in_month month year \<in> {28, 29, 30, 31} \<and> 0 <s get_days_in_month month year) \<and>
   fst (get_days_in_month_ret month year) \<noteq> Should_not_happen"
  by (simp add: get_days_in_month_eq get_days_in_month_ret_eq word_sless_alt)

theorem get_days_in_month_positive_witness:
  "get_days_in_month 2 2024 \<in> {28, 29, 30, 31} \<and> 0 <s get_days_in_month 2 2024
   \<and> fst (get_days_in_month_ret 2 2024) \<noteq> Should_not_happen"
  using get_days_in_month_positive [of 2 2024] by simp


section \<open>Validation of a date\<close>

lemma is_valid_date_eq:
  "is_valid_date day month year =
     (if \<not> (1700 \<le> sint year \<and> sint year \<le> 2500) then (False, year_error)
      else if \<not> (1 \<le> sint month \<and> sint month \<le> 12) then (False, month_error)
      else if \<not> (1 \<le> sint day \<and> sint day \<le> sint (get_days_in_month month year))
        then (False, day_error (get_days_in_month month year) month year)
      else (True, []))"
  by (auto simp add: is_valid_date_def word_sless_alt Let_def)

lemma diagnostics_distinct:
  "year_error \<noteq> month_error" "day_error a b c \<noteq> year_error" "day_error a b c \<noteq> month_error"
  "year_error \<noteq> []" "month_error \<noteq> []" "day_error a b c \<noteq> []"
  by (simp_all add: year_error_def month_error_def day_error_def)

lemma sint_get_days_in_month:
  "1 \<le> sint month \<Longrightarrow> sint month \<le> 12 \<Longrightarrow>
   sint (get_days_in_month month year) = gregorian_month_length (sint month) (sint year)"
  by (simp add: get_days_in_month_eq is_leap_eq gregorian_month_length_def
      gregorian_leap_year_def)

lemma gregorian_month_length_le: "gregorian_month_length m y \<le> 31"
  by (simp add: gregorian_month_length_def)

lemmas eval_simps = is_valid_date_eq get_days_in_month_eq is_leap_eq day_error_def fmt_d_def
  dec_nat_numeral digit_def year_error_def month_error_def

text \<open>The diagnostic of the day check never shows the sentinel -1 as the maximum day.\<close>

lemma day_error_sentinel:
  "g \<in> {28, 29, 30, 31} \<Longrightarrow> day_error g month year \<noteq> day_error (- 1) month year"
  by (auto simp add: day_error_def fmt_d_def dec_nat_numeral digit_def)

text \<open>
  Claim C3. \<^verbatim>\<open>is_valid_date\<close> returns false when the year is not in 1700..2500, false
  when the month is not in 1..12, and false when the day is below 1 or above
  \<^verbatim>\<open>get_days_in_month(month, year)\<close>; it returns true exactly when the three checks pass,
  and then prints nothing. On a failure it prints one diagnostic, and the diagnostic it
  prints names a constraint that is violated; the one of the day check shows the maximum
  day that \<^verbatim>\<open>get_days_in_month\<close> computed.
\<close>

theorem is_valid_date_contract:
  "(\<not> (1700 \<le> sint year \<and> sint year \<le> 2500) \<longrightarrow> \<not> fst (is_valid_date day month year)) \<and>
   (\<not> (1 \<le> sint month \<and> sint month \<le> 12) \<longrightarrow> \<not> fst (is_valid_date day month year)) \<and>
   (sint day < 1 \<or> sint (get_days_in_month month year) < sint day \<longrightarrow>
      \<not> fst (is_valid_date day month year)) \<and>
   (fst (is_valid_date day month year) \<longleftrightarrow>
      (1700 \<le> sint year \<and> sint year \<le> 2500) \<and> (1 \<le> sint month \<and> sint month \<le> 12) \<and>
      (1 \<le> sint day \<and> sint day \<le> sint (get_days_in_month month year))) \<and>
   (fst (is_valid_date day month year) \<longrightarrow> snd (is_valid_date day month year) = []) \<and>
   (\<not> fst (is_valid_date day month year) \<longrightarrow>
      snd (is_valid_date day month year) = year_error \<or>
      snd (is_valid_date day month year) = month_error \<or>
      snd (is_valid_date day month year) = day_error (get_days_in_month month year) month year) \<and>
   (snd (is_valid_date day month year) = year_error \<longrightarrow>
      \<not> (1700 \<le> sint year \<and> sint year \<le> 2500)) \<and>
   (snd (is_valid_date day month year) = month_error \<longrightarrow>
      \<not> (1 \<le> sint month \<and> sint month \<le> 12)) \<and>
   (snd (is_valid_date day month year) = day_error (get_days_in_month month year) month year \<longrightarrow>
      sint day < 1 \<or> sint (get_days_in_month month year) < sint day)"
  by (auto simp add: is_valid_date_eq diagnostics_distinct diagnostics_distinct [symmetric])

theorem is_valid_date_contract_witness:
  "\<not> fst (is_valid_date 31 2 2025)
   \<and> snd (is_valid_date 31 2 2025) = ''Error: Day must be between 1 and 28 for 2/2025.\<newline>''
   \<and> \<not> fst (is_valid_date 15 13 2025)
   \<and> snd (is_valid_date 15 13 2025) = ''Error: Month must be between 1 and 12.\<newline>''
   \<and> \<not> fst (is_valid_date 15 10 2501)
   \<and> snd (is_valid_date 15 10 2501)
        = ''Error: Year must be between 1700 and 2500 for this calculation.\<newline>''
   \<and> fst (is_valid_date 15 10 2025) \<and> snd (is_valid_date 15 10 2025) = []"
  using is_valid_date_contract [where day = 31 and month = 2 and year = 2025]
    is_valid_date_contract [where day = 15 and month = 13 and year = 2025]
    is_valid_date_contract [where day = 15 and month = 10 and year = 2501]
    is_valid_date_contract [where day = 15 and month = 10 and year = 2025]
  by (simp add: eval_simps)

text \<open>
  Claim C9. \<^verbatim>\<open>is_valid_date\<close> checks the year, then the month, then the day, and reports
  the first violated constraint only. The day check is reached only with a month in
  1..12: for any other month (or a year out of range) the result does not depend on the
  day, and when the day check is reached the maximum day it compares with is one of 28,
  29, 30 and 31; the sentinel -1 of \<^verbatim>\<open>get_days_in_month\<close> is never shown in a
  diagnostic.
\<close>

theorem is_valid_date_check_order:
  "is_valid_date day month year =
     (if \<not> (1700 \<le> sint year \<and> sint year \<le> 2500) then (False, year_error)
      else if \<not> (1 \<le> sint month \<and> sint month \<le> 12) then (False, month_error)
      else if \<not> (1 \<le> sint day \<and> sint day \<le> sint (get_days_in_month month year))
        then (False, day_error (get_days_in_month month year) month year)
      else (True, [])) \<and>
   (\<not> (1700 \<le> sint year \<and> sint year \<le> 2500 \<and> 1 \<le> sint month \<and> sint month \<le> 12) \<longrightarrow>
      is_valid_date day' month year = is_valid_date day month year) \<and>
   (1700 \<le> sint year \<and> sint year \<le> 2500 \<and> 1 \<le> sint month \<and> sint month \<le> 12 \<longrightarrow>
      get_days_in_month month year \<in> {28, 29, 30, 31} \<and> get_days_in_month month year \<noteq> - 1) \<and>
   snd (is_valid_date day month year) \<noteq> day_error (- 1) month year"
proof -
  have "get_days_in_month month year \<in> {28, 29, 30, 31}"
    if "1 \<le> sint month \<and> sint month \<le> 12"
    using that by (simp add: get_days_in_month_eq)
  moreover have "day_error (- 1) month year \<noteq> []"
    by (rule diagnostics_distinct)
  ultimately have "snd (is_valid_date day month year) \<noteq> day_error (- 1) month year"
    using day_error_sentinel [of "get_days_in_month month year" month year]
      diagnostics_distinct(2,3) [of "- 1" month year]
    by (auto simp add: is_valid_date_eq simp del: insert_iff)
  moreover have "is_valid_date day' month year = is_valid_date day month year"
    if "\<not> (1700 \<le> sint year \<and> sint year \<le> 2500 \<and> 1 \<le> sint month \<and> sint month \<le> 12)"
    using that by (auto simp add: is_valid_date_eq)
  moreover have "get_days_in_month month year \<in> {28, 29, 30, 31}
      \<and> get_days_in_month month year \<noteq> - 1"
    if "1700 \<le> sint year \<and> sint year \<le> 2500 \<and> 1 \<le> sint month \<and> sint month \<le> 12"
    using that by (simp add: get_days_in_month_eq)
  ultimately show ?thesis
    using is_valid_date_eq [of day month year] by blast
qed

theorem is_valid_date_check_order_witness:
  "is_valid_date 32 13 2501 = (False, year_error)
   \<and> is_valid_date 32 13 2025 = (False, month_error)
   \<and> is_valid_date 0 13 2025 = is_valid_date 32 13 2025
   \<and> is_valid_date 32 12 2025 = (False, day_error 31 12 2025)
   \<and> get_days_in_month 12 2025 = 31"
  using is_valid_date_check_order [where day = 32 and month = 13 and year = 2501]
    is_valid_date_check_order [where day = 32 and month = 13 and year = 2025 and day' = 0]
    is_valid_date_check_order [where day = 32 and month = 12 and year = 2025]
  by (simp add: get_days_in_month_eq)

text \<open>
  Claim C8. At the stated boundaries: \<^verbatim>\<open>is_valid_date(29, 2, 2023)\<close> is false, 2023 not
  being a leap year; \<^verbatim>\<open>is_valid_date(31, 4, 2025)\<close> is false, April having 30 days;
  \<^verbatim>\<open>is_valid_date(1, 1, 1699)\<close> is false, the year being below 1700.
\<close>

theorem is_valid_date_boundaries:
  "\<not> fst (is_valid_date 29 2 2023) \<and> is_leap 2023 = 0
   \<and> snd (is_valid_date 29 2 2023) = ''Error: Day must be between 1 and 28 for 2/2023.\<newline>''
   \<and> \<not> fst (is_valid_date 31 4 2025) \<and> get_days_in_month 4 2025 = 30
   \<and> snd (is_valid_date 31 4 2025) = ''Error: Day must be between 1 and 30 for 4/2025.\<newline>''
   \<and> \<not> fst (is_valid_date 1 1 1699)
   \<and> snd (is_valid_date 1 1 1699)
        = ''Error: Year must be between 1700 and 2500 for this calculation.\<newline>''"
  by (simp add: eval_simps)


section \<open>The name of the day\<close>

lemma print_day_name_eq:
  "print_day_name day_index =
     (if 0 \<le> sint day_index \<and> sint day_index \<le> 6
      then Some (''The day of the week was: '' @ day_names ! nat (sint day_index) @ ''\<newline>'')
      else Some invalid_index_error)"
  by (simp add: print_day_name_def array_read_def word_sle_eq day_names_def)

text \<open>
  Claim C7. \<^verbatim>\<open>print_day_name\<close> maps the indices 0 to 6 to Saturday, Sunday, Monday,
  Tuesday, Wednesday, Thursday and Friday, in this order. For every index outside 0..6 it
  prints an error diagnostic, and for no index does it read the array of names outside
  its bounds.
\<close>

theorem print_day_name_mapping:
  "print_day_name 0 = Some ''The day of the week was: Saturday\<newline>'' \<and>
   print_day_name 1 = Some ''The day of the week was: Sunday\<newline>'' \<and>
   print_day_name 2 = Some ''The day of the week was: Monday\<newline>'' \<and>
   print_day_name 3 = Some ''The day of the week was: Tuesday\<newline>'' \<and>
   print_day_name 4 = Some ''The day of the week was: Wednesday\<newline>'' \<and>
   print_day_name 5 = Some ''The day of the week was: Thursday\<newline>'' \<and>
   print_day_name 6 = Some ''The day of the week was: Friday\<newline>'' \<and>
   (\<not> (0 \<le> sint day_index \<and> sint day_index \<le> 6) \<longrightarrow>
      print_day_name day_index = Some ''Error: Invalid day index calculated.\<newline>'') \<and>
   print_day_name day_index \<noteq> None"
  by (simp add: print_day_name_eq day_names_def invalid_index_error_def)

theorem print_day_name_mapping_witness:
  "print_day_name 7 = Some ''Error: Invalid day index calculated.\<newline>'' \<and>
   print_day_name (- 1) = Some ''Error: Invalid day index calculated.\<newline>''"
  using print_day_name_mapping [of 7] print_day_name_mapping [of "- 1"] by simp


section \<open>The day of the week\<close>


text \<open>
  For a day of at most \<open>10\<^sup>9\<close> and a month of at most \<open>10\<^sup>8\<close> in absolute value, and
  any year but the least \<^verbatim>\<open>int\<close>, no operation of the function wraps around, and it
  returns the value of the algorithm on mathematical integers.
\<close>

lemma weekday_sum_int:
  fixes day m y :: c_int
  assumes day: "- 1000000000 \<le> sint day" "sint day \<le> 1000000000"
    and m: "- 100000000 \<le> sint m" "sint m \<le> 100000000"
  shows "sint (c_mod (day + c_div (13 * (m + 1)) 5 + c_mod y 100 + c_div (c_mod y 100) 4
            + c_div (c_div y 100) 4 + 5 * c_div y 100) 7)
         = (sint day + (13 * (sint m + 1)) sdiv 5 + sint y smod 100 + (sint y smod 100) sdiv 4
            + (sint y sdiv 100) sdiv 4 + 5 * (sint y sdiv 100)) smod 7"
proof -
  define D where "D = c_mod y 100"
  define C where "C = c_div y 100"
  define q where "q = c_div (13 * (m + 1)) 5"
  have D: "sint D = sint y smod 100"
    unfolding D_def by (simp add: sint_c_mod)
  have C: "sint C = sint y sdiv 100"
    unfolding C_def by (simp add: sint_c_div)
  have Db: "- 99 \<le> sint D \<and> sint D \<le> 99"
    unfolding D using sdiv_smod_bounds [of 2147483648 "sint y" 100] sint_c_int_bounds [of y]
    by simp
  have Cb: "- 21474836 \<le> sint C \<and> sint C \<le> 21474836"
    unfolding C using sdiv_smod_bounds [of 2147483648 "sint y" 100] sint_c_int_bounds [of y]
    by simp
  have m1: "sint (m + 1) = sint m + 1"
    using m by (simp add: sint_add_c_int)
  have t: "sint (13 * (m + 1)) = 13 * (sint m + 1)"
  proof -
    from m have "- 2147483648 \<le> sint (13 :: c_int) * sint (m + 1)"
      and "sint (13 :: c_int) * sint (m + 1) < 2147483648"
      by (simp_all add: m1)
    from sint_mult_c_int [OF this] show ?thesis
      by (simp add: m1 del: distrib_left_numeral)
  qed
  have q: "sint q = (13 * (sint m + 1)) sdiv 5"
    unfolding q_def by (simp add: sint_c_div t del: distrib_left_numeral)
  have qb: "- 260000002 \<le> sint q \<and> sint q \<le> 260000002"
    unfolding q using sdiv_smod_bounds [of 1300000013 "13 * (sint m + 1)" 5] m
    by simp
  have D4: "sint (c_div D 4) = sint D sdiv 4"
    by (simp add: sint_c_div)
  have D4b: "- 24 \<le> sint (c_div D 4) \<and> sint (c_div D 4) \<le> 24"
    unfolding D4 using sdiv_smod_bounds [of 99 "sint D" 4] Db by simp
  have C4: "sint (c_div C 4) = sint C sdiv 4"
    by (simp add: sint_c_div)
  have C4b: "- 5368709 \<le> sint (c_div C 4) \<and> sint (c_div C 4) \<le> 5368709"
    unfolding C4 using sdiv_smod_bounds [of 21474836 "sint C" 4] Cb by simp
  have C5: "sint (5 * C) = 5 * sint C"
  proof -
    from Cb have "- 2147483648 \<le> sint (5 :: c_int) * sint C"
      and "sint (5 :: c_int) * sint C < 2147483648"
      by simp_all
    from sint_mult_c_int [OF this] show ?thesis
      by simp
  qed
  have s1: "sint (day + q) = sint day + sint q"
    using day qb by (simp add: sint_add_c_int)
  have s2: "sint (day + q + D) = sint day + sint q + sint D"
    using day qb Db by (simp add: sint_add_c_int s1)
  have s3: "sint (day + q + D + c_div D 4) = sint day + sint q + sint D + sint (c_div D 4)"
    using day qb Db D4b by (simp add: sint_add_c_int s2)
  have s4: "sint (day + q + D + c_div D 4 + c_div C 4)
      = sint day + sint q + sint D + sint (c_div D 4) + sint (c_div C 4)"
    using day qb Db D4b C4b by (simp add: sint_add_c_int s3)
  have s5: "sint (day + q + D + c_div D 4 + c_div C 4 + 5 * C)
      = sint day + sint q + sint D + sint (c_div D 4) + sint (c_div C 4) + 5 * sint C"
    using day qb Db D4b C4b Cb by (simp add: sint_add_c_int s4 C5)
  have "sint (c_mod (day + q + D + c_div D 4 + c_div C 4 + 5 * C) 7)
      = sint (day + q + D + c_div D 4 + c_div C 4 + 5 * C) smod 7"
    by (simp add: sint_c_mod)
  then show ?thesis
    unfolding s5 D4 C4 q D C unfolding q_def D_def C_def .
qed


lemma calculate_day_of_week_cases:
  "calculate_day_of_week day month year =
     (if month = 1 then
        c_mod (day + c_div (13 * (13 + 1)) 5 + c_mod (year - 1) 100 + c_div (c_mod (year - 1) 100) 4
          + c_div (c_div (year - 1) 100) 4 + 5 * c_div (year - 1) 100) 7
      else if month = 2 then
        c_mod (day + c_div (13 * (14 + 1)) 5 + c_mod (year - 1) 100 + c_div (c_mod (year - 1) 100) 4
          + c_div (c_div (year - 1) 100) 4 + 5 * c_div (year - 1) 100) 7
      else
        c_mod (day + c_div (13 * (month + 1)) 5 + c_mod year 100 + c_div (c_mod year 100) 4
          + c_div (c_div year 100) 4 + 5 * c_div year 100) 7)"
  by (simp add: calculate_day_of_week_def Let_def del: distrib_left_numeral)

lemma computeWeekday_int_cases:
  "computeWeekday_int d m y =
     (if m = 1 then
        (d + (13 * (13 + 1)) sdiv 5 + (y - 1) smod 100 + ((y - 1) smod 100) sdiv 4
          + ((y - 1) sdiv 100) sdiv 4 + 5 * ((y - 1) sdiv 100)) smod 7
      else if m = 2 then
        (d + (13 * (14 + 1)) sdiv 5 + (y - 1) smod 100 + ((y - 1) smod 100) sdiv 4
          + ((y - 1) sdiv 100) sdiv 4 + 5 * ((y - 1) sdiv 100)) smod 7
      else
        (d + (13 * (m + 1)) sdiv 5 + y smod 100 + (y smod 100) sdiv 4
          + (y sdiv 100) sdiv 4 + 5 * (y sdiv 100)) smod 7)"
  by (simp add: computeWeekday_int_def Let_def del: distrib_left_numeral)

lemma calculate_day_of_week_int:
  assumes day: "- 1000000000 \<le> sint day" "sint day \<le> 1000000000"
    and month: "- 100000000 \<le> sint month" "sint month \<le> 100000000"
    and year: "- 2147483648 < sint year"
  shows "sint (calculate_day_of_week day month year)
     = computeWeekday_int (sint day) (sint month) (sint year)"
proof -
  have y1: "sint (year - 1) = sint year - 1"
    using year sint_c_int_bounds [of year] by (simp add: sint_diff_c_int)
  have m: "month = 1 \<longleftrightarrow> sint month = 1" "month = 2 \<longleftrightarrow> sint month = 2"
    by (simp_all add: c_int_eq_iff [of month])
  have s13: "sint (13 :: c_int) = 13" and s14: "sint (14 :: c_int) = 14"
    by simp_all
  show ?thesis
  proof (cases "sint month = 1")
    case True
    from weekday_sum_int [OF day, of 13 "year - 1"]
    have "sint (calculate_day_of_week day 1 year)
        = computeWeekday_int (sint day) 1 (sint year)"
      unfolding calculate_day_of_week_cases computeWeekday_int_cases if_P [OF refl] s13 y1
      by simp
    moreover from True have "month = 1"
      by (simp add: m)
    ultimately show ?thesis
      using True by simp
  next
    case False
    note not_jan = this
    show ?thesis
    proof (cases "sint month = 2")
      case True
      have "(2 :: c_int) \<noteq> 1" and "(2 :: int) \<noteq> 1" by simp_all
      from weekday_sum_int [OF day, of 14 "year - 1"]
      have "sint (calculate_day_of_week day 2 year)
          = computeWeekday_int (sint day) 2 (sint year)"
        unfolding calculate_day_of_week_cases computeWeekday_int_cases
          if_not_P [OF \<open>(2::c_int) \<noteq> 1\<close>] if_not_P [OF \<open>(2::int) \<noteq> 1\<close>] if_P [OF refl] s14 y1
        by simp
      moreover from True have "month = 2"
        by (simp add: m)
      ultimately show ?thesis
        using True by simp
    next
      case False
      from weekday_sum_int [OF day month, of year] not_jan False show ?thesis
        unfolding calculate_day_of_week_cases computeWeekday_int_cases
        by (simp only: m if_False)
    qed
  qed
qed

text \<open>On a date of the common era the algorithm yields an index in 0..6.\<close>

lemma weekday_sum_range:
  fixes d m y :: int
  assumes "0 \<le> d" "0 \<le> m" "0 \<le> y"
  shows "0 \<le> (d + (13 * (m + 1)) sdiv 5 + y smod 100 + (y smod 100) sdiv 4
            + (y sdiv 100) sdiv 4 + 5 * (y sdiv 100)) smod 7
      \<and> (d + (13 * (m + 1)) sdiv 5 + y smod 100 + (y smod 100) sdiv 4
            + (y sdiv 100) sdiv 4 + 5 * (y sdiv 100)) smod 7 \<le> 6"
proof -
  have q: "0 \<le> (13 * (m + 1)) sdiv 5"
    using assms(2) sdiv_smod_nonneg [of "13 * (m + 1)" 5] by simp
  have D: "0 \<le> y smod 100"
    using assms(3) sdiv_smod_nonneg [of y 100] by simp
  have D4: "0 \<le> (y smod 100) sdiv 4"
    using D sdiv_smod_nonneg [of "y smod 100" 4] by simp
  have C: "0 \<le> y sdiv 100"
    using assms(3) sdiv_smod_nonneg [of y 100] by simp
  have C4: "0 \<le> (y sdiv 100) sdiv 4"
    using C sdiv_smod_nonneg [of "y sdiv 100" 4] by simp
  have "0 \<le> d + (13 * (m + 1)) sdiv 5 + y smod 100 + (y smod 100) sdiv 4
            + (y sdiv 100) sdiv 4 + 5 * (y sdiv 100)"
    using assms(1) q D D4 C C4 by linarith
  from sdiv_smod_nonneg [OF this, of 7] show ?thesis
    by simp
qed

lemma computeWeekday_int_range:
  assumes "0 \<le> d" "1 \<le> m" "1 \<le> y"
  shows "0 \<le> computeWeekday_int d m y \<and> computeWeekday_int d m y \<le> 6"
proof -
  from assms have "0 \<le> y - 1" "0 \<le> m" "0 \<le> y" by simp_all
  with assms(1) weekday_sum_range [of d 13 "y - 1"] weekday_sum_range [of d 14 "y - 1"]
    weekday_sum_range [of d m y]
  show ?thesis
    unfolding computeWeekday_int_cases by (simp del: distrib_left_numeral)
qed


text \<open>
  Claim C2. For every valid Gregorian date with a year in 1700..2500 (a month in 1..12
  and a day between 1 and the number of days of that month in that year),
  \<^verbatim>\<open>is_valid_date\<close> returns true and \<^verbatim>\<open>calculate_day_of_week\<close> returns a value in
  0..6.
\<close>

theorem valid_date_weekday_in_range:
  assumes "valid_gregorian_date (sint day) (sint month) (sint year)"
    and "1700 \<le> sint year" and "sint year \<le> 2500"
  shows "is_valid_date day month year = (True, []) \<and>
     0 \<le> sint (calculate_day_of_week day month year) \<and>
     sint (calculate_day_of_week day month year) \<le> 6"
proof -
  from assms(1) have m: "1 \<le> sint month" "sint month \<le> 12"
    and d: "1 \<le> sint day" "sint day \<le> gregorian_month_length (sint month) (sint year)"
    by (simp_all add: valid_gregorian_date_def)
  from d(2) gregorian_month_length_le [of "sint month" "sint year"] have d31: "sint day \<le> 31"
    by linarith
  have "is_valid_date day month year = (True, [])"
    using assms(2,3) m d by (simp add: is_valid_date_eq sint_get_days_in_month)
  moreover have "sint (calculate_day_of_week day month year)
      = computeWeekday_int (sint day) (sint month) (sint year)"
    by (rule calculate_day_of_week_int) (use d(1) d31 m assms(2) in linarith)+
  moreover have "0 \<le> computeWeekday_int (sint day) (sint month) (sint year) \<and>
      computeWeekday_int (sint day) (sint month) (sint year) \<le> 6"
    by (rule computeWeekday_int_range) (use d(1) m(1) assms(2) in linarith)+
  ultimately show ?thesis by simp
qed

theorem valid_date_weekday_in_range_witness:
  "valid_gregorian_date 29 2 2024 \<and> is_valid_date 29 2 2024 = (True, []) \<and>
   0 \<le> sint (calculate_day_of_week 29 2 2024) \<and> sint (calculate_day_of_week 29 2 2024) \<le> 6"
proof -
  have v: "valid_gregorian_date (sint (29 :: c_int)) (sint (2 :: c_int)) (sint (2024 :: c_int))"
    by (simp add: valid_gregorian_date_def gregorian_month_length_def gregorian_leap_year_def)
  have "1700 \<le> sint (2024 :: c_int)" and "sint (2024 :: c_int) \<le> 2500"
    by simp_all
  from valid_date_weekday_in_range [OF v this] v show ?thesis
    by simp
qed

text \<open>The reference count of days for 15 October 2025.\<close>

lemma upto_1_numeral:
  "[1..numeral n] = (if 1 \<le> (numeral n :: int) then 1 # [1 + 1..numeral n] else [])"
  by (rule upto.simps)

lemma days_since_2000_15_10_2025: "days_since_2000 15 10 2025 = 9419"
  by (simp add: days_since_2000_def gregorian_leap_year_def gregorian_month_length_def
      upto_1_numeral)

text \<open>
  Claim C6. For the date 15/10/2025: \<^verbatim>\<open>is_valid_date(15, 10, 2025)\<close> is true, and
  \<^verbatim>\<open>calculate_day_of_week(15, 10, 2025)\<close> is the index 4, for which
  \<^verbatim>\<open>print_day_name\<close> prints Wednesday, the day of the week of 15 October 2025: the date
  is 9419 days after Saturday 1 January 2000, and 9419 mod 7 = 4.
\<close>

theorem weekday_of_15_10_2025:
  "is_valid_date 15 10 2025 = (True, []) \<and> calculate_day_of_week 15 10 2025 = 4 \<and>
   day_names ! 4 = ''Wednesday'' \<and>
   print_day_name (calculate_day_of_week 15 10 2025)
     = Some ''The day of the week was: Wednesday\<newline>'' \<and>
   days_since_2000 15 10 2025 mod 7 = 4"
  by (simp add: eval_simps calculate_day_of_week_def c_div_def c_mod_def signed_divide_int_def
      signed_modulo_int_def print_day_name_def array_read_def day_names_def word_sle_eq
      days_since_2000_15_10_2025)

end
